theory Spec2Isabelle
  imports Main
begin

section \<open>Library system: fixed-width record files (librarySystem.py)\<close>

text \<open>
  The program keeps three flat files (books.dat, members.dat, loans.dat), each a
  concatenation of fixed-size blocks produced by Python's \<^verbatim>\<open>struct\<close> module.
  A file's content is a list of bytes; a byte is a \<^typ>\<open>char\<close>.

  A Python \<^verbatim>\<open>str\<close> is represented by its UTF-8 encoding, a \<^typ>\<open>string\<close>:
  \<^verbatim>\<open>s.encode("utf-8")\<close> is then the identity, and the strings a decoder can
  return are exactly the well-formed byte sequences (see \<open>utf8_ignore\<close> below).
  Python integers are unbounded: \<^typ>\<open>int\<close>.
\<close>

subsection \<open>Strings: pack_str and unpack_str\<close>

definition NUL :: char where
  "NUL = CHR 0x00"

text \<open>\<^verbatim>\<open>s.encode("utf-8")[:length].ljust(length, b"\x00")\<close>\<close>

definition pack_str :: "string \<Rightarrow> nat \<Rightarrow> string" where
  "pack_str s len = (let e = take len s in e @ replicate (len - length e) NUL)"

definition is_cont :: "char \<Rightarrow> bool" where
  "is_cont c \<longleftrightarrow> 128 \<le> (of_char c :: nat) \<and> (of_char c :: nat) < 192"

text \<open>
  \<^verbatim>\<open>b.decode("utf-8", errors="ignore")\<close>: the decoder of the Python runtime. At each
  position it looks at the lead byte and the continuation bytes it needs, and either
  accepts a well-formed sequence of one to four bytes (\<open>Keep\<close>), or reports an
  ill-formed one, whose bytes up to the offending byte are dropped before decoding resumes
  (\<open>Skip\<close>), or finds that the data ends inside a sequence, and drops what is left
  (\<open>Cut\<close>).
\<close>

datatype utf8_step = Keep nat | Skip nat | Cut

definition utf8_seq2 :: "string \<Rightarrow> utf8_step" where
  "utf8_seq2 cs = (case cs of [] \<Rightarrow> Cut | c2 # r2 \<Rightarrow> if is_cont c2 then Keep 2 else Skip 1)"

definition utf8_seq3 :: "nat \<Rightarrow> string \<Rightarrow> utf8_step" where
  "utf8_seq3 ch cs =
     (case cs of
        [] \<Rightarrow> Cut
      | c2 # r2 \<Rightarrow>
          if \<not> is_cont c2 \<or> (if (of_char c2 :: nat) < 160 then ch = 224 else ch = 237)
          then Skip 1
          else (case r2 of [] \<Rightarrow> Cut | c3 # r3 \<Rightarrow> if is_cont c3 then Keep 3 else Skip 2))"

definition utf8_seq4 :: "nat \<Rightarrow> string \<Rightarrow> utf8_step" where
  "utf8_seq4 ch cs =
     (case cs of
        [] \<Rightarrow> Cut
      | c2 # r2 \<Rightarrow>
          if \<not> is_cont c2 \<or> (if (of_char c2 :: nat) < 144 then ch = 240 else ch = 244)
          then Skip 1
          else (case r2 of
                  [] \<Rightarrow> Cut
                | c3 # r3 \<Rightarrow>
                    if \<not> is_cont c3 then Skip 2
                    else (case r3 of
                            [] \<Rightarrow> Cut
                          | c4 # r4 \<Rightarrow> if is_cont c4 then Keep 4 else Skip 3)))"

definition utf8_next :: "char \<Rightarrow> string \<Rightarrow> utf8_step" where
  "utf8_next c cs =
     (let ch = (of_char c :: nat) in
      if ch < 128 then Keep 1
      else if ch < 194 then Skip 1
      else if ch < 224 then utf8_seq2 cs
      else if ch < 240 then utf8_seq3 ch cs
      else if ch < 245 then utf8_seq4 ch cs
      else Skip 1)"

function utf8_ignore :: "string \<Rightarrow> string" where
  "utf8_ignore [] = []"
| "utf8_ignore (c # cs) =
     (case utf8_next c cs of
        Keep n \<Rightarrow> take n (c # cs) @ utf8_ignore (drop n (c # cs))
      | Skip n \<Rightarrow> utf8_ignore (drop n (c # cs))
      | Cut \<Rightarrow> [])"
  by pat_completeness auto
termination
proof (relation "measure length")
  show "wf (measure length)" by simp
next
  fix c cs n
  assume "utf8_next c cs = Keep n"
  then have "0 < n"
    by (auto simp: utf8_next_def utf8_seq2_def utf8_seq3_def utf8_seq4_def Let_def
             split: if_splits list.splits)
  then show "(drop n (c # cs), c # cs) \<in> measure length" by simp
next
  fix c cs n
  assume "utf8_next c cs = Skip n"
  then have "0 < n"
    by (auto simp: utf8_next_def utf8_seq2_def utf8_seq3_def utf8_seq4_def Let_def
             split: if_splits list.splits)
  then show "(drop n (c # cs), c # cs) \<in> measure length" by simp
qed

text \<open>\<^verbatim>\<open>str.rstrip("\x00")\<close>: U+0000 is the single byte 0 and no other character contains it.\<close>

definition rstrip_nul :: "string \<Rightarrow> string" where
  "rstrip_nul s = rev (dropWhile (\<lambda>c. c = NUL) (rev s))"

definition unpack_str :: "string \<Rightarrow> string" where
  "unpack_str b = rstrip_nul (utf8_ignore b)"

text \<open>
  The byte strings that are encodings of Python strings are those the decoder returns
  unchanged. A string \<open>fits\<close> a field of \<open>n\<close> bytes when it is such an encoding, is
  at most \<open>n\<close> bytes long and does not end in U+0000. \<open>stored n s\<close> is what comes back
  for \<open>s\<close> from a field of \<open>n\<close> bytes.
\<close>

definition well_formed :: "string \<Rightarrow> bool" where
  "well_formed s \<longleftrightarrow> utf8_ignore s = s"

definition fits :: "nat \<Rightarrow> string \<Rightarrow> bool" where
  "fits n s \<longleftrightarrow> well_formed s \<and> length s \<le> n \<and> (s = [] \<or> last s \<noteq> NUL)"

definition stored :: "nat \<Rightarrow> string \<Rightarrow> string" where
  "stored n s = unpack_str (pack_str s n)"

subsection \<open>Integers: the struct format "i"\<close>

text \<open>
  Format \<^verbatim>\<open>i\<close> in native mode: four bytes, two's complement, here least significant
  byte first. Packing a number outside the signed 32-bit range raises
  \<^verbatim>\<open>struct.error\<close>, which is \<open>None\<close>.
\<close>

definition i32_ok :: "int \<Rightarrow> bool" where
  "i32_ok x \<longleftrightarrow> - 2147483648 \<le> x \<and> x \<le> 2147483647"

definition i32_bytes :: "int \<Rightarrow> string" where
  "i32_bytes x =
     (let u = x mod 4294967296 in
      [char_of u, char_of (u div 256), char_of (u div 65536), char_of (u div 16777216)])"

definition pack_i :: "int \<Rightarrow> string option" where
  "pack_i x = (if i32_ok x then Some (i32_bytes x) else None)"

definition unpack_i :: "string \<Rightarrow> int" where
  "unpack_i b =
     (let u = of_char (b ! 0) + 256 * of_char (b ! 1) + 65536 * of_char (b ! 2)
              + 16777216 * of_char (b ! 3)
      in if u \<ge> 2147483648 then u - 4294967296 else u)"

subsection \<open>Records and their blocks\<close>

text \<open>
  The three entity kinds are Python dictionaries that always carry the same keys; they
  are records here. \<open>status\<close> is an integer in the files (books and members: 1 active,
  0 inactive or blocked; loans: 0 borrowed, 1 returned).
\<close>

record book =
  book_id :: int
  title :: string
  author :: string
  year :: int
  copies :: int
  borrowed :: int
  book_status :: int

record member =
  member_id :: int
  name :: string
  email :: string
  phone :: string
  member_status :: int
  total_borrows :: int

record loan =
  borrow_id :: int
  loan_book_id :: int
  loan_member_id :: int
  loan_date :: string
  due_date :: string
  return_date :: string
  loan_status :: int

text \<open>
  \<^verbatim>\<open>struct.Struct("i50s30siiii")\<close>, \<^verbatim>\<open>"i40s40s15sii"\<close> and \<^verbatim>\<open>"iii10s10s10si"\<close>
  use native alignment: an \<^verbatim>\<open>i\<close> starts at a multiple of four, so one zero byte
  follows the 15-byte phone and two follow the third date. The sizes are 100, 108 and 48.
  \<open>pack\<close> raises \<^verbatim>\<open>struct.error\<close> (\<open>None\<close>) when a number does not fit.
\<close>

definition BOOK_SIZE :: nat where "BOOK_SIZE = 100"
definition MEMBER_SIZE :: nat where "MEMBER_SIZE = 108"
definition LOAN_SIZE :: nat where "LOAN_SIZE = 48"

definition pack_book :: "book \<Rightarrow> string option" where
  "pack_book d =
     (if i32_ok (book_id d) \<and> i32_ok (year d) \<and> i32_ok (copies d) \<and> i32_ok (borrowed d)
         \<and> i32_ok (book_status d)
      then Some (i32_bytes (book_id d) @ pack_str (title d) 50 @ pack_str (author d) 30
                 @ i32_bytes (year d) @ i32_bytes (copies d) @ i32_bytes (borrowed d)
                 @ i32_bytes (book_status d))
      else None)"

definition unpack_book :: "string \<Rightarrow> book" where
  "unpack_book raw =
     \<lparr> book_id = unpack_i (take 4 raw),
       title = unpack_str (take 50 (drop 4 raw)),
       author = unpack_str (take 30 (drop 54 raw)),
       year = unpack_i (take 4 (drop 84 raw)),
       copies = unpack_i (take 4 (drop 88 raw)),
       borrowed = unpack_i (take 4 (drop 92 raw)),
       book_status = unpack_i (take 4 (drop 96 raw)) \<rparr>"

definition pack_member :: "member \<Rightarrow> string option" where
  "pack_member d =
     (if i32_ok (member_id d) \<and> i32_ok (member_status d) \<and> i32_ok (total_borrows d)
      then Some (i32_bytes (member_id d) @ pack_str (name d) 40 @ pack_str (email d) 40
                 @ pack_str (phone d) 15 @ [NUL]
                 @ i32_bytes (member_status d) @ i32_bytes (total_borrows d))
      else None)"

definition unpack_member :: "string \<Rightarrow> member" where
  "unpack_member raw =
     \<lparr> member_id = unpack_i (take 4 raw),
       name = unpack_str (take 40 (drop 4 raw)),
       email = unpack_str (take 40 (drop 44 raw)),
       phone = unpack_str (take 15 (drop 84 raw)),
       member_status = unpack_i (take 4 (drop 100 raw)),
       total_borrows = unpack_i (take 4 (drop 104 raw)) \<rparr>"

definition pack_loan :: "loan \<Rightarrow> string option" where
  "pack_loan d =
     (if i32_ok (borrow_id d) \<and> i32_ok (loan_book_id d) \<and> i32_ok (loan_member_id d)
         \<and> i32_ok (loan_status d)
      then Some (i32_bytes (borrow_id d) @ i32_bytes (loan_book_id d)
                 @ i32_bytes (loan_member_id d)
                 @ pack_str (loan_date d) 10 @ pack_str (due_date d) 10
                 @ pack_str (return_date d) 10 @ [NUL, NUL]
                 @ i32_bytes (loan_status d))
      else None)"

definition unpack_loan :: "string \<Rightarrow> loan" where
  "unpack_loan raw =
     \<lparr> borrow_id = unpack_i (take 4 raw),
       loan_book_id = unpack_i (take 4 (drop 4 raw)),
       loan_member_id = unpack_i (take 4 (drop 8 raw)),
       loan_date = unpack_str (take 10 (drop 12 raw)),
       due_date = unpack_str (take 10 (drop 22 raw)),
       return_date = unpack_str (take 10 (drop 32 raw)),
       loan_status = unpack_i (take 4 (drop 44 raw)) \<rparr>"

text \<open>
  A record can be packed when its numbers fit; it is valid when moreover its strings fit
  their fields. \<open>norm_book\<close>, \<open>norm_member\<close> and \<open>norm_loan\<close> give the record that
  is read back from the block of a record.
\<close>

definition book_packable :: "book \<Rightarrow> bool" where
  "book_packable d \<longleftrightarrow>
     i32_ok (book_id d) \<and> i32_ok (year d) \<and> i32_ok (copies d) \<and> i32_ok (borrowed d)
     \<and> i32_ok (book_status d)"

definition book_valid :: "book \<Rightarrow> bool" where
  "book_valid d \<longleftrightarrow> book_packable d \<and> fits 50 (title d) \<and> fits 30 (author d)"

definition norm_book :: "book \<Rightarrow> book" where
  "norm_book d = d\<lparr>title := stored 50 (title d), author := stored 30 (author d)\<rparr>"

definition member_packable :: "member \<Rightarrow> bool" where
  "member_packable d \<longleftrightarrow>
     i32_ok (member_id d) \<and> i32_ok (member_status d) \<and> i32_ok (total_borrows d)"

definition member_valid :: "member \<Rightarrow> bool" where
  "member_valid d \<longleftrightarrow>
     member_packable d \<and> fits 40 (name d) \<and> fits 40 (email d) \<and> fits 15 (phone d)"

definition norm_member :: "member \<Rightarrow> member" where
  "norm_member d =
     d\<lparr>name := stored 40 (name d), email := stored 40 (email d), phone := stored 15 (phone d)\<rparr>"

definition loan_packable :: "loan \<Rightarrow> bool" where
  "loan_packable d \<longleftrightarrow>
     i32_ok (borrow_id d) \<and> i32_ok (loan_book_id d) \<and> i32_ok (loan_member_id d)
     \<and> i32_ok (loan_status d)"

definition loan_valid :: "loan \<Rightarrow> bool" where
  "loan_valid d \<longleftrightarrow>
     loan_packable d \<and> fits 10 (loan_date d) \<and> fits 10 (due_date d) \<and> fits 10 (return_date d)"

definition norm_loan :: "loan \<Rightarrow> loan" where
  "norm_loan d =
     d\<lparr>loan_date := stored 10 (loan_date d), due_date := stored 10 (due_date d),
       return_date := stored 10 (return_date d)\<rparr>"

subsection \<open>Storage helpers\<close>

text \<open>
  The state of the system is the content of the three files; \<open>None\<close> is a file that
  does not exist.
\<close>

record files =
  book_file :: "string option"
  member_file :: "string option"
  loan_file :: "string option"

text \<open>
  \<^verbatim>\<open>read_all\<close>: the loop reads \<open>sz\<close> bytes at a time and stops at the first chunk
  that is empty or short.
\<close>

function read_chunks :: "string \<Rightarrow> nat \<Rightarrow> string list" where
  "read_chunks data sz =
     (let chunk = take sz data in
      if chunk = [] \<or> length chunk < sz then []
      else chunk # read_chunks (drop sz data) sz)"
  by pat_completeness auto
termination
  by (relation "measure (\<lambda>(data, sz). length data)") (auto simp: Let_def)

declare read_chunks.simps [simp del]

definition read_all :: "string option \<Rightarrow> nat \<Rightarrow> string list" where
  "read_all file sz = (case file of None \<Rightarrow> [] | Some data \<Rightarrow> read_chunks data sz)"

text \<open>
  \<^verbatim>\<open>with open(.., "wb") as f: for x in xs: f.write(pack(x))\<close>: the file is emptied,
  then the blocks are written in order; when \<open>pack\<close> raises, the blocks written so far
  stay in the file. The result says whether the loop ran to its end.
\<close>

fun write_all :: "('a \<Rightarrow> string option) \<Rightarrow> 'a list \<Rightarrow> string \<Rightarrow> bool \<times> string" where
  "write_all pack [] written = (True, written)"
| "write_all pack (x # xs) written =
     (case pack x of
        None \<Rightarrow> (False, written)
      | Some block \<Rightarrow> write_all pack xs (written @ block))"

text \<open>
  \<^verbatim>\<open>with open(.., "ab") as f: f.write(pack(x))\<close>: the file is created when it is
  missing, before \<open>pack\<close> runs.
\<close>

definition append_record :: "('a \<Rightarrow> string option) \<Rightarrow> string option \<Rightarrow> 'a \<Rightarrow> bool \<times> string" where
  "append_record pack file x =
     (let old = (case file of None \<Rightarrow> [] | Some data \<Rightarrow> data) in
      case pack x of
        None \<Rightarrow> (False, old)
      | Some block \<Rightarrow> (True, old @ block))"

definition load_books :: "files \<Rightarrow> book list" where
  "load_books fs = map unpack_book (read_all (book_file fs) BOOK_SIZE)"

definition save_books :: "files \<Rightarrow> book list \<Rightarrow> bool \<times> files" where
  "save_books fs list_books =
     (let (ok, data) = write_all pack_book list_books [] in (ok, fs\<lparr>book_file := Some data\<rparr>))"

definition append_book_record :: "files \<Rightarrow> book \<Rightarrow> bool \<times> files" where
  "append_book_record fs b =
     (let (ok, data) = append_record pack_book (book_file fs) b
      in (ok, fs\<lparr>book_file := Some data\<rparr>))"

definition load_members :: "files \<Rightarrow> member list" where
  "load_members fs = map unpack_member (read_all (member_file fs) MEMBER_SIZE)"

definition save_members :: "files \<Rightarrow> member list \<Rightarrow> bool \<times> files" where
  "save_members fs list_members =
     (let (ok, data) = write_all pack_member list_members []
      in (ok, fs\<lparr>member_file := Some data\<rparr>))"

definition append_member_record :: "files \<Rightarrow> member \<Rightarrow> bool \<times> files" where
  "append_member_record fs m =
     (let (ok, data) = append_record pack_member (member_file fs) m
      in (ok, fs\<lparr>member_file := Some data\<rparr>))"

definition load_loans :: "files \<Rightarrow> loan list" where
  "load_loans fs = map unpack_loan (read_all (loan_file fs) LOAN_SIZE)"

definition save_loans :: "files \<Rightarrow> loan list \<Rightarrow> bool \<times> files" where
  "save_loans fs list_loans =
     (let (ok, data) = write_all pack_loan list_loans [] in (ok, fs\<lparr>loan_file := Some data\<rparr>))"

definition append_loan_record :: "files \<Rightarrow> loan \<Rightarrow> bool \<times> files" where
  "append_loan_record fs l =
     (let (ok, data) = append_record pack_loan (loan_file fs) l
      in (ok, fs\<lparr>loan_file := Some data\<rparr>))"

text \<open>Before the program has ever run, none of the files exists.\<close>

definition empty_files :: files where
  "empty_files = \<lparr> book_file = None, member_file = None, loan_file = None \<rparr>"

text \<open>
  A file holds whole blocks when its length is a multiple of the block size (a file that
  does not exist holds none). The files are \<open>aligned\<close> when all three do.
\<close>

definition whole_blocks :: "string option \<Rightarrow> nat \<Rightarrow> bool" where
  "whole_blocks file sz \<longleftrightarrow> (case file of None \<Rightarrow> True | Some data \<Rightarrow> length data mod sz = 0)"

definition aligned :: "files \<Rightarrow> bool" where
  "aligned fs \<longleftrightarrow>
     whole_blocks (book_file fs) BOOK_SIZE \<and> whole_blocks (member_file fs) MEMBER_SIZE
     \<and> whole_blocks (loan_file fs) LOAN_SIZE"

subsection \<open>Utility\<close>

text \<open>\<^verbatim>\<open>max(i[key] for i in items)\<close> keeps the largest value seen so far.\<close>

fun max_from :: "int \<Rightarrow> int list \<Rightarrow> int" where
  "max_from m [] = m"
| "max_from m (x # xs) = max_from (if x > m then x else m) xs"

definition next_id :: "'a list \<Rightarrow> ('a \<Rightarrow> int) \<Rightarrow> int" where
  "next_id items key = (case map key items of [] \<Rightarrow> 1 | v # vs \<Rightarrow> max_from v vs + 1)"

text \<open>
  The prompts. \<^verbatim>\<open>input_int(prompt, default)\<close> returns the default on an empty line
  (\<open>None\<close>) and the number typed otherwise; \<^verbatim>\<open>input_str\<close> returns the default when
  the line is empty. What the user types is a parameter of each operation, and so is the
  text that \<^verbatim>\<open>today()\<close> returns.
\<close>

definition input_int :: "int option \<Rightarrow> int \<Rightarrow> int" where
  "input_int typed dflt = (case typed of None \<Rightarrow> dflt | Some v \<Rightarrow> v)"

definition input_str :: "string \<Rightarrow> string \<Rightarrow> string" where
  "input_str typed dflt = (if typed \<noteq> [] then typed else dflt)"

text \<open>
  \<^verbatim>\<open>for i, x in enumerate(xs): if p(x): ...change x...; found = True; break\<close>:
  the first element that satisfies \<open>p\<close> is changed, and the flag says whether there was one.
\<close>

fun modify_first :: "('a \<Rightarrow> bool) \<Rightarrow> ('a \<Rightarrow> 'a) \<Rightarrow> 'a list \<Rightarrow> bool \<times> 'a list" where
  "modify_first p f [] = (False, [])"
| "modify_first p f (x # xs) =
     (if p x then (True, f x # xs)
      else (let (found, ys) = modify_first p f xs in (found, x # ys)))"

subsection \<open>Operations\<close>

text \<open>
  What an operation reports. The first sixteen are the messages the program prints;
  \<open>StructError\<close> is the \<^verbatim>\<open>struct.error\<close> that no operation catches.
\<close>

datatype outcome =
    BookAdded | DuplicateId | BookUpdated | NotFound | Conflict | AlreadyDeleted | BookDeleted
  | MemberAdded int | MemberUpdated | MemberDeleted
  | BookUnavailable | MemberInvalid | NoCopiesAvailable | BorrowRecorded
  | ReturnSuccess | ActiveLoanNotFound
  | StructError

text \<open>
  \<^verbatim>\<open>add_book\<close>, one book: an identifier that is already taken is refused (the program
  prints the refusal and asks again, nothing being written); otherwise the record is
  appended with \<open>borrowed = 0\<close> and \<open>status = 1\<close>.
\<close>

definition add_book ::
  "files \<Rightarrow> int \<Rightarrow> string \<Rightarrow> string \<Rightarrow> int option \<Rightarrow> int option \<Rightarrow> outcome \<times> files" where
  "add_book fs bid title_in author_in year_in copies_in =
     (let books = load_books fs in
      if list_ex (\<lambda>b. book_id b = bid) books then (DuplicateId, fs)
      else
        (let b = \<lparr> book_id = bid, title = input_str title_in [],
                   author = input_str author_in [], year = input_int year_in 0,
                   copies = input_int copies_in 1, borrowed = 0, book_status = 1 \<rparr>;
             (ok, fs') = append_book_record fs b
         in (if ok then BookAdded else StructError, fs')))"

definition update_book ::
  "files \<Rightarrow> int \<Rightarrow> string \<Rightarrow> string \<Rightarrow> int option \<Rightarrow> int option \<Rightarrow> outcome \<times> files" where
  "update_book fs bid title_in author_in year_in copies_in =
     (let books = load_books fs;
          (found, books') =
             modify_first (\<lambda>b. book_id b = bid)
               (\<lambda>b. b\<lparr> title := input_str title_in (title b),
                       author := input_str author_in (author b),
                       year := input_int year_in (year b),
                       copies := input_int copies_in (copies b) \<rparr>) books
      in if found
         then (let (ok, fs') = save_books fs books'
               in (if ok then BookUpdated else StructError, fs'))
         else (NotFound, fs))"

text \<open>
  The loop of \<^verbatim>\<open>delete_book\<close>: at the first book with the identifier it either
  returns (status already 0) or sets the status to 0 and stops.
\<close>

fun mark_inactive :: "int \<Rightarrow> book list \<Rightarrow> outcome \<times> book list" where
  "mark_inactive bid [] = (NotFound, [])"
| "mark_inactive bid (b # bs) =
     (if book_id b = bid
      then (if book_status b = 0 then (AlreadyDeleted, b # bs)
            else (BookDeleted, b\<lparr>book_status := 0\<rparr> # bs))
      else (let (r, bs') = mark_inactive bid bs in (r, b # bs')))"

definition delete_book :: "files \<Rightarrow> int \<Rightarrow> outcome \<times> files" where
  "delete_book fs bid =
     (let books = load_books fs;
          loans = load_loans fs;
          active_loans = filter (\<lambda>l. loan_book_id l = bid \<and> loan_status l = 0) loans
      in if active_loans \<noteq> [] then (Conflict, fs)
         else
           (let (r, books') = mark_inactive bid books
            in if r = BookDeleted
               then (let (ok, fs') = save_books fs books'
                     in (if ok then BookDeleted else StructError, fs'))
               else (r, fs)))"

text \<open>\<^verbatim>\<open>add_member\<close>, one member.\<close>

definition add_member :: "files \<Rightarrow> string \<Rightarrow> string \<Rightarrow> string \<Rightarrow> outcome \<times> files" where
  "add_member fs name_in email_in phone_in =
     (let members = load_members fs;
          mid = next_id members member_id;
          m = \<lparr> member_id = mid, name = input_str name_in [], email = input_str email_in [],
                phone = input_str phone_in [], member_status = 1, total_borrows = 0 \<rparr>;
          (ok, fs') = append_member_record fs m
      in (if ok then MemberAdded mid else StructError, fs'))"

definition update_member ::
  "files \<Rightarrow> int \<Rightarrow> string \<Rightarrow> string \<Rightarrow> string \<Rightarrow> outcome \<times> files" where
  "update_member fs mid name_in email_in phone_in =
     (let members = load_members fs;
          (found, members') =
             modify_first (\<lambda>m. member_id m = mid)
               (\<lambda>m. m\<lparr> name := input_str name_in (name m),
                       email := input_str email_in (email m),
                       phone := input_str phone_in (phone m) \<rparr>) members
      in if found
         then (let (ok, fs') = save_members fs members'
               in (if ok then MemberUpdated else StructError, fs'))
         else (NotFound, fs))"

definition delete_member :: "files \<Rightarrow> int \<Rightarrow> outcome \<times> files" where
  "delete_member fs mid =
     (let members = load_members fs;
          (found, members') =
             modify_first (\<lambda>m. member_id m = mid) (\<lambda>m. m\<lparr>member_status := 0\<rparr>) members
      in if found
         then (let (ok, fs') = save_members fs members'
               in (if ok then MemberDeleted else StructError, fs'))
         else (NotFound, fs))"

definition borrow_book :: "files \<Rightarrow> int \<Rightarrow> int \<Rightarrow> string \<Rightarrow> string \<Rightarrow> outcome \<times> files" where
  "borrow_book fs bid mid due_in today =
     (let books = load_books fs;
          members = load_members fs;
          loans = load_loans fs
      in case find (\<lambda>b. book_id b = bid \<and> book_status b = 1) books of
           None \<Rightarrow> (BookUnavailable, fs)
         | Some bk \<Rightarrow>
            (case find (\<lambda>m. member_id m = mid \<and> member_status m = 1) members of
               None \<Rightarrow> (MemberInvalid, fs)
             | Some mb \<Rightarrow>
                if borrowed bk \<ge> copies bk then (NoCopiesAvailable, fs)
                else
                  (let l = \<lparr> borrow_id = next_id loans borrow_id, loan_book_id = bid,
                             loan_member_id = mid, loan_date = today,
                             due_date = input_str due_in [], return_date = [],
                             loan_status = 0 \<rparr>;
                       (ok1, fs1) = append_loan_record fs l
                   in if \<not> ok1 then (StructError, fs1)
                      else
                        (let (f2, books') =
                               modify_first (\<lambda>b. book_id b = bid)
                                 (\<lambda>b. b\<lparr>borrowed := borrowed b + 1\<rparr>) books;
                             (ok2, fs2) = save_books fs1 books'
                         in if \<not> ok2 then (StructError, fs2)
                            else
                              (let (f3, members') =
                                     modify_first (\<lambda>m. member_id m = mid)
                                       (\<lambda>m. m\<lparr>total_borrows := total_borrows m + 1\<rparr>) members;
                                   (ok3, fs3) = save_members fs2 members'
                               in (if ok3 then BorrowRecorded else StructError, fs3))))))"

definition return_book :: "files \<Rightarrow> int \<Rightarrow> string \<Rightarrow> outcome \<times> files" where
  "return_book fs rid today =
     (let loans = load_loans fs;
          books = load_books fs
      in case find (\<lambda>l. borrow_id l = rid \<and> loan_status l = 0) loans of
           None \<Rightarrow> (ActiveLoanNotFound, fs)
         | Some l \<Rightarrow>
            (let (f1, loans') =
                   modify_first (\<lambda>l. borrow_id l = rid \<and> loan_status l = 0)
                     (\<lambda>l. l\<lparr>return_date := today, loan_status := 1\<rparr>) loans;
                 (f2, books') =
                   modify_first (\<lambda>b. book_id b = loan_book_id l)
                     (\<lambda>b. b\<lparr>borrowed := max 0 (borrowed b - 1)\<rparr>) books;
                 (ok1, fs1) = save_loans fs loans'
             in if \<not> ok1 then (StructError, fs1)
                else (let (ok2, fs2) = save_books fs1 books'
                      in (if ok2 then ReturnSuccess else StructError, fs2))))"

text \<open>The operations as commands, so that a property can speak of all of them.\<close>

datatype command =
    AddBook int string string "int option" "int option"
  | UpdateBook int string string "int option" "int option"
  | DeleteBook int
  | AddMember string string string
  | UpdateMember int string string string
  | DeleteMember int
  | BorrowBook int int string string
  | ReturnBook int string

fun exec :: "files \<Rightarrow> command \<Rightarrow> outcome \<times> files" where
  "exec fs (AddBook bid t a y c) = add_book fs bid t a y c"
| "exec fs (UpdateBook bid t a y c) = update_book fs bid t a y c"
| "exec fs (DeleteBook bid) = delete_book fs bid"
| "exec fs (AddMember n e p) = add_member fs n e p"
| "exec fs (UpdateMember mid n e p) = update_member fs mid n e p"
| "exec fs (DeleteMember mid) = delete_member fs mid"
| "exec fs (BorrowBook bid mid due today) = borrow_book fs bid mid due today"
| "exec fs (ReturnBook rid today) = return_book fs rid today"

section \<open>Properties\<close>

subsection \<open>The decoder\<close>

lemma NUL_val: "(of_char NUL :: nat) = 0" by (simp add: NUL_def)
lemma NUL_not_cont: "\<not> is_cont NUL" by (simp add: is_cont_def NUL_def)

lemmas utf8_defs = utf8_next_def utf8_seq2_def utf8_seq3_def utf8_seq4_def

lemma utf8_next_Keep_bounds: "utf8_next c cs = Keep n \<Longrightarrow> 0 < n \<and> n \<le> Suc (length cs)"
  by (auto simp: utf8_defs Let_def split: if_splits list.splits)

lemma utf8_next_Skip_bounds: "utf8_next c cs = Skip n \<Longrightarrow> 0 < n \<and> n \<le> Suc (length cs)"
  by (auto simp: utf8_defs Let_def split: if_splits list.splits)

lemma utf8_next_Keep_append: "utf8_next c cs = Keep n \<Longrightarrow> utf8_next c (cs @ t) = Keep n"
  by (auto simp: utf8_defs Let_def split: if_splits list.splits)

lemma utf8_next_Skip_append: "utf8_next c cs = Skip n \<Longrightarrow> utf8_next c (cs @ t) = Skip n"
  by (auto simp: utf8_defs Let_def split: if_splits list.splits)

lemma utf8_next_Keep_take: "utf8_next c cs = Keep n \<Longrightarrow> utf8_next c (take (n - 1) cs @ t) = Keep n"
  by (auto simp: utf8_defs Let_def split: if_splits list.splits)

lemma utf8_next_Cut_NUL: "utf8_next c cs = Cut \<Longrightarrow> utf8_next c (cs @ NUL # t) = Skip (Suc (length cs))"
  by (auto simp: utf8_defs Let_def NUL_not_cont split: if_splits list.splits)


lemma drop_app_le: "n \<le> length xs \<Longrightarrow> drop n (xs @ ys) = drop n xs @ ys" by simp
lemma take_app_le: "n \<le> length xs \<Longrightarrow> take n (xs @ ys) = take n xs" by simp

lemma utf8_ignore_snoc_NUL: "utf8_ignore (s @ [NUL]) = utf8_ignore s @ [NUL]"
proof (induction s rule: utf8_ignore.induct)
  case 1
  show ?case by (simp add: utf8_next_def NUL_val)
next
  case (2 c cs)
  show ?case
  proof (cases "utf8_next c cs")
    case (Keep n)
    from utf8_next_Keep_bounds[OF Keep] have n: "0 < n" "n \<le> Suc (length cs)" by auto
    have d: "drop n ((c # cs) @ [NUL]) = drop n (c # cs) @ [NUL]"
      and t: "take n ((c # cs) @ [NUL]) = take n (c # cs)"
      using n by (simp_all only: drop_app_le take_app_le length_Cons)
    have "utf8_ignore ((c # cs) @ [NUL]) = take n (c # cs) @ utf8_ignore (drop n (c # cs) @ [NUL])"
      using utf8_next_Keep_append[OF Keep, of "[NUL]"] d t by simp
    then show ?thesis using "2.IH"(1)[OF Keep] Keep by simp
  next
    case (Skip n)
    from utf8_next_Skip_bounds[OF Skip] have n: "0 < n" "n \<le> Suc (length cs)" by auto
    have d: "drop n ((c # cs) @ [NUL]) = drop n (c # cs) @ [NUL]"
      using n by (simp only: drop_app_le length_Cons)
    have "utf8_ignore ((c # cs) @ [NUL]) = utf8_ignore (drop n (c # cs) @ [NUL])"
      using utf8_next_Skip_append[OF Skip, of "[NUL]"] d by simp
    then show ?thesis using "2.IH"(2)[OF Skip] Skip by simp
  next
    case Cut
    have "utf8_ignore [NUL] = [NUL]" by (simp add: utf8_next_def NUL_val)
    then have "utf8_ignore ((c # cs) @ [NUL]) = [NUL]"
      using utf8_next_Cut_NUL[OF Cut, of "[]"] by simp
    then show ?thesis using Cut by simp
  qed
qed

lemma utf8_ignore_append_NULs: "utf8_ignore (s @ replicate k NUL) = utf8_ignore s @ replicate k NUL"
proof (induction k arbitrary: s)
  case 0
  then show ?case by simp
next
  case (Suc k)
  have "s @ replicate (Suc k) NUL = (s @ [NUL]) @ replicate k NUL" by simp
  then have "utf8_ignore (s @ replicate (Suc k) NUL) = utf8_ignore (s @ [NUL]) @ replicate k NUL"
    using Suc[of "s @ [NUL]"] by simp
  then show ?case by (simp add: utf8_ignore_snoc_NUL)
qed

lemma length_utf8_ignore: "length (utf8_ignore s) \<le> length s"
proof (induction s rule: utf8_ignore.induct)
  case 1
  show ?case by simp
next
  case (2 c cs)
  show ?case
  proof (cases "utf8_next c cs")
    case (Keep n)
    from utf8_next_Keep_bounds[OF Keep] have n: "0 < n" "n \<le> Suc (length cs)" by auto
    show ?thesis using "2.IH"(1)[OF Keep] Keep n by simp
  next
    case (Skip n)
    show ?thesis using "2.IH"(2)[OF Skip] Skip by simp
  next
    case Cut
    then show ?thesis by simp
  qed
qed

lemma utf8_ignore_idem: "utf8_ignore (utf8_ignore s) = utf8_ignore s"
proof (induction s rule: utf8_ignore.induct)
  case 1
  show ?case by simp
next
  case (2 c cs)
  show ?case
  proof (cases "utf8_next c cs")
    case (Keep n)
    from utf8_next_Keep_bounds[OF Keep] have n: "0 < n" "n \<le> Suc (length cs)" by auto
    define t where "t = utf8_ignore (drop n (c # cs))"
    from n obtain m where m: "n = Suc m" by (cases n) auto
    have tk: "take n (c # cs) @ t = c # (take m cs @ t)" using m by simp
    have nx: "utf8_next c (take m cs @ t) = Keep n"
      using utf8_next_Keep_take[OF Keep, of t] m by simp
    have len: "length (take m cs) = m" using n m by simp
    have "utf8_ignore (c # (take m cs @ t)) = take n (c # (take m cs @ t)) @ utf8_ignore (drop n (c # (take m cs @ t)))"
      using nx by simp
    also have "\<dots> = (c # take m cs) @ utf8_ignore t" using m len by simp
    also have "\<dots> = (c # take m cs) @ t" using "2.IH"(1)[OF Keep] by (simp add: t_def)
    finally show ?thesis using Keep tk by (simp add: t_def)
  next
    case (Skip n)
    show ?thesis using "2.IH"(2)[OF Skip] Skip by simp
  next
    case Cut
    then show ?thesis by simp
  qed
qed

subsection \<open>Strings in fields\<close>

lemma length_pack_str: "length (pack_str s n) = n"
  by (simp add: pack_str_def Let_def)

lemma pack_str_short: "length s \<le> n \<Longrightarrow> pack_str s n = s @ replicate (n - length s) NUL"
  by (simp add: pack_str_def Let_def)

lemma rstrip_nul_append_NULs: "rstrip_nul (s @ replicate k NUL) = rstrip_nul s"
proof -
  have "dropWhile (\<lambda>c. c = NUL) (replicate k NUL @ rev s) = dropWhile (\<lambda>c. c = NUL) (rev s)"
    by (induction k) simp_all
  then show ?thesis by (simp add: rstrip_nul_def)
qed

lemma rstrip_nul_id: "s = [] \<or> last s \<noteq> NUL \<Longrightarrow> rstrip_nul s = s"
proof (cases "s = []")
  case True
  then show ?thesis by (simp add: rstrip_nul_def)
next
  case False
  assume "s = [] \<or> last s \<noteq> NUL"
  with False have "hd (rev s) \<noteq> NUL" by (simp add: hd_rev)
  with False have "dropWhile (\<lambda>c. c = NUL) (rev s) = rev s" by (cases "rev s") auto
  then show ?thesis by (simp add: rstrip_nul_def)
qed

lemma rstrip_nul_last: "rstrip_nul s = [] \<or> last (rstrip_nul s) \<noteq> NUL"
proof (cases "dropWhile (\<lambda>c. c = NUL) (rev s)")
  case Nil
  then show ?thesis by (simp add: rstrip_nul_def)
next
  case (Cons a as)
  then have "a \<noteq> NUL" using hd_dropWhile[of "\<lambda>c. c = NUL" "rev s"] by auto
  then show ?thesis using Cons by (simp add: rstrip_nul_def)
qed

lemma length_rstrip_nul: "length (rstrip_nul s) \<le> length s"
  using length_dropWhile_le[of "\<lambda>c. c = NUL" "rev s"] by (simp add: rstrip_nul_def)

lemma rstrip_nul_decomp: "\<exists>k. s = rstrip_nul s @ replicate k NUL"
proof -
  let ?P = "\<lambda>c. c = NUL"
  have tw: "takeWhile ?P xs = replicate (length (takeWhile ?P xs)) NUL" for xs :: string
    by (induction xs) auto
  have "rev s = takeWhile ?P (rev s) @ dropWhile ?P (rev s)" by simp
  then have "s = rev (dropWhile ?P (rev s)) @ rev (takeWhile ?P (rev s))"
    by (metis rev_append rev_rev_ident)
  also have "rev (takeWhile ?P (rev s)) = replicate (length (takeWhile ?P (rev s))) NUL"
    using tw[of "rev s"] by (metis rev_replicate)
  finally show ?thesis unfolding rstrip_nul_def by blast
qed

lemma well_formed_rstrip: "well_formed s \<Longrightarrow> well_formed (rstrip_nul s)"
proof -
  assume w: "well_formed s"
  obtain k where k: "s = rstrip_nul s @ replicate k NUL" using rstrip_nul_decomp by blast
  have "utf8_ignore (rstrip_nul s) @ replicate k NUL = utf8_ignore (rstrip_nul s @ replicate k NUL)"
    by (simp add: utf8_ignore_append_NULs)
  also have "\<dots> = rstrip_nul s @ replicate k NUL" using w k by (simp add: well_formed_def)
  finally show ?thesis by (simp add: well_formed_def)
qed

lemma fits_unpack_str: "length b \<le> n \<Longrightarrow> fits n (unpack_str b)"
proof -
  assume l: "length b \<le> n"
  have "well_formed (utf8_ignore b)" by (simp add: well_formed_def utf8_ignore_idem)
  then have w: "well_formed (unpack_str b)" unfolding unpack_str_def by (rule well_formed_rstrip)
  have "length (unpack_str b) \<le> length b"
    unfolding unpack_str_def using length_rstrip_nul[of "utf8_ignore b"] length_utf8_ignore[of b] by simp
  with l w show ?thesis unfolding fits_def using rstrip_nul_last[of "utf8_ignore b"]
    by (simp add: unpack_str_def)
qed

lemma fits_stored: "fits n (stored n s)"
  unfolding stored_def by (rule fits_unpack_str) (simp add: length_pack_str)

lemma stored_fits: "fits n s \<Longrightarrow> stored n s = s"
proof -
  assume f: "fits n s"
  then have "utf8_ignore (pack_str s n) = s @ replicate (n - length s) NUL"
    by (simp add: fits_def well_formed_def pack_str_short utf8_ignore_append_NULs)
  then show ?thesis using f by (simp add: stored_def unpack_str_def rstrip_nul_append_NULs rstrip_nul_id fits_def)
qed

lemma stored_idem: "stored n (stored n s) = stored n s"
  by (rule stored_fits) (rule fits_stored)

lemma stored_Nil: "stored n [] = []"
  by (rule stored_fits) (simp add: fits_def well_formed_def)

subsection \<open>Numbers in fields\<close>

lemma length_i32_bytes: "length (i32_bytes x) = 4"
  by (simp add: i32_bytes_def Let_def)

lemma lin4:
  fixes u a b c r0 r1 r2 :: int
  shows "u = 256 * a + r0 \<Longrightarrow> a = 256 * b + r1 \<Longrightarrow> b = 256 * c + r2
         \<Longrightarrow> r0 + 256 * r1 + 65536 * r2 + 16777216 * c = u"
  by simp

lemma bytes_of_u:
  fixes u :: int
  assumes "0 \<le> u" "u < 4294967296"
  shows "u mod 256 + 256 * ((u div 256) mod 256) + 65536 * ((u div 65536) mod 256)
         + 16777216 * ((u div 16777216) mod 256) = u"
proof -
  have b: "u div 65536 = u div 256 div 256" by (simp add: zdiv_zmult2_eq[symmetric])
  have c: "u div 16777216 = u div 256 div 256 div 256" by (simp add: zdiv_zmult2_eq[symmetric])
  have "u div 16777216 < 256" using assms(2) by (simp add: div_less_iff_less_mult)
  moreover have "0 \<le> u div 16777216" using assms(1) by (simp add: pos_imp_zdiv_nonneg_iff)
  ultimately have c256: "(u div 16777216) mod 256 = u div 16777216" by (rule_tac mod_pos_pos_trivial)
  have 1: "u = 256 * (u div 256) + u mod 256" by (rule mult_div_mod_eq[symmetric])
  have 2: "u div 256 = 256 * (u div 256 div 256) + u div 256 mod 256" by (rule mult_div_mod_eq[symmetric])
  have 3: "u div 256 div 256 = 256 * (u div 256 div 256 div 256) + u div 256 div 256 mod 256"
    by (rule mult_div_mod_eq[symmetric])
  show ?thesis unfolding c256 unfolding b c by (rule lin4[OF 1 2 3])
qed

lemma mod_2_32: 
  fixes x :: int
  assumes "i32_ok x"
  shows "x mod 4294967296 = (if x < 0 then x + 4294967296 else x)"
proof (cases "x < 0")
  case True
  have "x mod 4294967296 = (x + 4294967296) mod 4294967296" by simp
  also have "\<dots> = x + 4294967296"
    using assms True by (intro mod_pos_pos_trivial) (simp_all add: i32_ok_def)
  finally show ?thesis using True by simp
next
  case False
  then have "x mod 4294967296 = x"
    using assms by (intro mod_pos_pos_trivial) (simp_all add: i32_ok_def)
  then show ?thesis using False by simp
qed

lemma nth4: "[a, b, c, d] ! 0 = a" "[a, b, c, d] ! 1 = b" "[a, b, c, d] ! 2 = c" "[a, b, c, d] ! 3 = d"
  by simp_all

lemma unpack_i_i32_bytes: "i32_ok x \<Longrightarrow> unpack_i (i32_bytes x) = x"
proof -
  assume ok: "i32_ok x"
  define u where "u = x mod 4294967296"
  have u: "0 \<le> u" "u < 4294967296" unfolding u_def by simp_all
  have bs: "i32_bytes x = [char_of u, char_of (u div 256), char_of (u div 65536), char_of (u div 16777216)]"
    by (simp only: i32_bytes_def Let_def u_def)
  have s: "of_char (i32_bytes x ! 0) + 256 * of_char (i32_bytes x ! 1)
           + 65536 * of_char (i32_bytes x ! 2) + 16777216 * of_char (i32_bytes x ! 3) = u"
    unfolding bs nth4 of_char_of by (rule bytes_of_u[OF u])
  have ux: "u = (if x < 0 then x + 4294967296 else x)" unfolding u_def by (rule mod_2_32[OF ok])
  have "(if u \<ge> 2147483648 then u - 4294967296 else u) = x"
    using ok unfolding ux i32_ok_def by auto
  then show ?thesis unfolding unpack_i_def Let_def s .
qed

lemma of_char_int_bounds: "0 \<le> (of_char c :: int) \<and> (of_char c :: int) < 256"
proof -
  have "(of_char c :: int) = int (of_char c)" by (simp add: of_nat_of_char)
  then show ?thesis using nat_of_char_less_256[of c] by simp
qed

lemma i32_ok_unpack_i: "i32_ok (unpack_i b)"
proof -
  define a0 :: int where "a0 = of_char (b ! 0)"
  define a1 :: int where "a1 = of_char (b ! 1)"
  define a2 :: int where "a2 = of_char (b ! 2)"
  define a3 :: int where "a3 = of_char (b ! 3)"
  have b: "0 \<le> a0" "a0 < 256" "0 \<le> a1" "a1 < 256" "0 \<le> a2" "a2 < 256" "0 \<le> a3" "a3 < 256"
    using of_char_int_bounds unfolding a0_def a1_def a2_def a3_def by blast+
  have "unpack_i b = (let u = a0 + 256 * a1 + 65536 * a2 + 16777216 * a3
                      in if u \<ge> 2147483648 then u - 4294967296 else u)"
    by (simp add: unpack_i_def a0_def a1_def a2_def a3_def)
  then show ?thesis using b by (simp add: i32_ok_def Let_def)
qed

subsection \<open>Records and blocks\<close>

lemma pack_book_packable: "pack_book d = (if book_packable d then Some (the (pack_book d)) else None)"
  by (simp add: pack_book_def book_packable_def)

lemma length_pack_book: "pack_book d = Some blk \<Longrightarrow> length blk = BOOK_SIZE"
  by (auto simp: pack_book_def BOOK_SIZE_def length_i32_bytes length_pack_str split: if_splits)

lemma unpack_pack_book: "pack_book d = Some blk \<Longrightarrow> unpack_book blk = norm_book d"
  by (auto simp: pack_book_def unpack_book_def norm_book_def length_i32_bytes length_pack_str
                 unpack_i_i32_bytes stored_def split: if_splits)

lemma length_pack_member: "pack_member d = Some blk \<Longrightarrow> length blk = MEMBER_SIZE"
  by (auto simp: pack_member_def MEMBER_SIZE_def length_i32_bytes length_pack_str split: if_splits)

lemma unpack_pack_member: "pack_member d = Some blk \<Longrightarrow> unpack_member blk = norm_member d"
  by (auto simp: pack_member_def unpack_member_def norm_member_def length_i32_bytes length_pack_str
                 unpack_i_i32_bytes stored_def split: if_splits)

lemma length_pack_loan: "pack_loan d = Some blk \<Longrightarrow> length blk = LOAN_SIZE"
  by (auto simp: pack_loan_def LOAN_SIZE_def length_i32_bytes length_pack_str split: if_splits)

lemma unpack_pack_loan: "pack_loan d = Some blk \<Longrightarrow> unpack_loan blk = norm_loan d"
  by (auto simp: pack_loan_def unpack_loan_def norm_loan_def length_i32_bytes length_pack_str
                 unpack_i_i32_bytes stored_def split: if_splits)

lemma pack_book_None: "pack_book d = None \<longleftrightarrow> \<not> book_packable d"
  by (simp add: pack_book_def book_packable_def)
lemma pack_member_None: "pack_member d = None \<longleftrightarrow> \<not> member_packable d"
  by (simp add: pack_member_def member_packable_def)
lemma pack_loan_None: "pack_loan d = None \<longleftrightarrow> \<not> loan_packable d"
  by (simp add: pack_loan_def loan_packable_def)

lemma book_valid_unpack: "book_valid (unpack_book raw)"
  by (simp add: book_valid_def book_packable_def unpack_book_def i32_ok_unpack_i fits_unpack_str)
lemma member_valid_unpack: "member_valid (unpack_member raw)"
  by (simp add: member_valid_def member_packable_def unpack_member_def i32_ok_unpack_i fits_unpack_str)
lemma loan_valid_unpack: "loan_valid (unpack_loan raw)"
  by (simp add: loan_valid_def loan_packable_def unpack_loan_def i32_ok_unpack_i fits_unpack_str)

lemma norm_book_valid: "book_valid d \<Longrightarrow> norm_book d = d"
  by (simp add: book_valid_def norm_book_def stored_fits)
lemma norm_member_valid: "member_valid d \<Longrightarrow> norm_member d = d"
  by (simp add: member_valid_def norm_member_def stored_fits)
lemma norm_loan_valid: "loan_valid d \<Longrightarrow> norm_loan d = d"
  by (simp add: loan_valid_def norm_loan_def stored_fits)

lemma book_valid_norm: "book_packable d \<Longrightarrow> book_valid (norm_book d)"
  by (simp add: book_valid_def book_packable_def norm_book_def fits_stored)
lemma member_valid_norm: "member_packable d \<Longrightarrow> member_valid (norm_member d)"
  by (simp add: member_valid_def member_packable_def norm_member_def fits_stored)
lemma loan_valid_norm: "loan_packable d \<Longrightarrow> loan_valid (norm_loan d)"
  by (simp add: loan_valid_def loan_packable_def norm_loan_def fits_stored)

subsection \<open>Reading and writing blocks\<close>

lemma read_chunks_short: "length data < sz \<Longrightarrow> read_chunks data sz = []"
  by (subst read_chunks.simps) (simp add: Let_def)

lemma read_chunks_step:
  "0 < sz \<Longrightarrow> length blk = sz \<Longrightarrow> read_chunks (blk @ rest) sz = blk # read_chunks rest sz"
  by (subst read_chunks.simps) (auto simp: Let_def)

lemma read_chunks_concat:
  "0 < sz \<Longrightarrow> \<forall>b\<in>set blocks. length b = sz \<Longrightarrow> length frag < sz
   \<Longrightarrow> read_chunks (concat blocks @ frag) sz = blocks"
  by (induction blocks) (simp_all add: read_chunks_short read_chunks_step)

lemma read_chunks_lengths: "b \<in> set (read_chunks data sz) \<Longrightarrow> length b = sz"
proof (induction data sz rule: read_chunks.induct)
  case (1 data sz)
  show ?case
  proof (cases "take sz data = [] \<or> length (take sz data) < sz")
    case True
    then have "read_chunks data sz = []" by (subst read_chunks.simps) (simp add: Let_def)
    with "1.prems" show ?thesis by simp
  next
    case False
    then have e: "read_chunks data sz = take sz data # read_chunks (drop sz data) sz"
      by (subst read_chunks.simps) (simp add: Let_def)
    from False have l: "length (take sz data) = sz" by auto
    from "1.prems" e have "b = take sz data \<or> b \<in> set (read_chunks (drop sz data) sz)" by simp
    then show ?thesis using l "1.IH"[OF refl False] by blast
  qed
qed

lemma read_chunks_append:
  "0 < sz \<Longrightarrow> length a mod sz = 0 \<Longrightarrow> read_chunks (a @ b) sz = read_chunks a sz @ read_chunks b sz"
proof (induction a sz rule: read_chunks.induct)
  case (1 data sz)
  show ?case
  proof (cases "data = []")
    case True
    then show ?thesis by (simp add: read_chunks_short "1.prems")
  next
    case False
    with "1.prems" have ge: "sz \<le> length data" by (metis length_greater_0_conv mod_less not_le less_numeral_extra(3))
    then have nb: "\<not> (take sz data = [] \<or> length (take sz data) < sz)" using "1.prems"(1) False by auto
    have e: "read_chunks data sz = take sz data # read_chunks (drop sz data) sz"
      using nb by (subst read_chunks.simps) (simp add: Let_def)
    have m: "length (drop sz data) mod sz = 0"
      using ge "1.prems"(2) by (simp add: le_mod_geq[symmetric])
    have d: "data @ b = take sz data @ (drop sz data @ b)" by simp
    have "read_chunks (data @ b) sz = take sz data # read_chunks (drop sz data @ b) sz"
      by (subst d, rule read_chunks_step) (use ge "1.prems"(1) in auto)
    then show ?thesis using "1.IH"[OF refl nb "1.prems"(1) m] e by simp
  qed
qed

lemma write_all_eq:
  "write_all pack xs acc =
     (list_all (\<lambda>x. pack x \<noteq> None) xs,
      acc @ concat (map (\<lambda>x. the (pack x)) (takeWhile (\<lambda>x. pack x \<noteq> None) xs)))"
  by (induction xs arbitrary: acc) (auto split: option.splits)

lemma length_concat_blocks: "\<forall>b\<in>set blocks. length b = sz \<Longrightarrow> length (concat blocks) mod sz = 0"
  by (induction blocks) simp_all

subsection \<open>Saving, appending and loading\<close>

lemma read_written:
  assumes len: "\<And>x blk. pack x = Some blk \<Longrightarrow> length blk = sz" and sz: "0 < sz"
  shows "map unpack (read_chunks (snd (write_all pack xs [])) sz)
         = map (\<lambda>x. unpack (the (pack x))) (takeWhile (\<lambda>x. pack x \<noteq> None) xs)"
proof -
  let ?ok = "\<lambda>x. pack x \<noteq> None"
  let ?blocks = "map (\<lambda>x. the (pack x)) (takeWhile ?ok xs)"
  have "\<forall>b\<in>set ?blocks. length b = sz"
    using len by (auto dest!: set_takeWhileD)
  then have "read_chunks (concat ?blocks @ []) sz = ?blocks"
    using sz by (intro read_chunks_concat) simp_all
  then show ?thesis by (simp add: write_all_eq comp_def)
qed

lemma written_whole:
  assumes len: "\<And>x blk. pack x = Some blk \<Longrightarrow> length blk = sz"
  shows "whole_blocks (Some (snd (write_all pack xs []))) sz"
proof -
  have "\<forall>b\<in>set (map (\<lambda>x. the (pack x)) (takeWhile (\<lambda>x. pack x \<noteq> None) xs)). length b = sz"
    using len by (auto dest!: set_takeWhileD)
  then show ?thesis by (simp add: whole_blocks_def write_all_eq length_concat_blocks)
qed

lemma read_appended:
  assumes "whole_blocks file sz" "0 < sz" "pack x = Some blk" "length blk = sz"
  shows "read_chunks (snd (append_record pack file x)) sz = read_all file sz @ [blk]"
proof -
  define old where "old = (case file of None \<Rightarrow> [] | Some data \<Rightarrow> data)"
  have m: "length old mod sz = 0" using assms(1) by (auto simp: old_def whole_blocks_def split: option.splits)
  have r: "read_all file sz = read_chunks old sz"
    by (auto simp: read_all_def old_def read_chunks_short assms(2) split: option.splits)
  have "read_chunks (blk @ []) sz = blk # read_chunks [] sz"
    using assms(2,4) by (rule read_chunks_step)
  then have b: "read_chunks blk sz = [blk]" using assms(2) by (simp add: read_chunks_short)
  have "snd (append_record pack file x) = old @ blk"
    using assms(3) by (simp add: append_record_def old_def Let_def)
  then show ?thesis using read_chunks_append[OF assms(2) m, of blk] b r by simp
qed

lemma read_not_appended:
  assumes "pack x = None"
  shows "read_chunks (snd (append_record pack file x)) sz = read_all file sz"
  using assms by (auto simp: append_record_def read_all_def Let_def read_chunks.simps[of "[]"] split: option.splits)

lemma appended_whole:
  assumes "whole_blocks file sz" "\<And>blk. pack x = Some blk \<Longrightarrow> length blk = sz"
  shows "whole_blocks (Some (snd (append_record pack file x))) sz"
  using assms by (auto simp: append_record_def whole_blocks_def Let_def split: option.splits)

lemma fst_append_record: "fst (append_record pack file x) \<longleftrightarrow> pack x \<noteq> None"
  by (simp add: append_record_def Let_def split: option.splits)

lemma fst_write_all: "fst (write_all pack xs []) \<longleftrightarrow> list_all (\<lambda>x. pack x \<noteq> None) xs"
  by (simp add: write_all_eq)

subsection \<open>The three stores\<close>

lemma fst_save_books: "fst (save_books fs xs) \<longleftrightarrow> list_all book_packable xs"
  by (simp add: save_books_def split_def Let_def fst_write_all pack_book_None)

lemma load_save_books: "load_books (snd (save_books fs xs)) = map norm_book (takeWhile book_packable xs)"
proof -
  have sz: "0 < BOOK_SIZE" by (simp add: BOOK_SIZE_def)
  have "map unpack_book (read_chunks (snd (write_all pack_book xs [])) BOOK_SIZE)
        = map (\<lambda>x. unpack_book (the (pack_book x))) (takeWhile (\<lambda>x. pack_book x \<noteq> None) xs)"
    by (rule read_written[OF length_pack_book sz])
  also have "\<dots> = map norm_book (takeWhile (\<lambda>x. pack_book x \<noteq> None) xs)"
    by (rule map_cong[OF refl]) (auto dest!: set_takeWhileD simp: unpack_pack_book)
  finally show ?thesis
    by (simp add: load_books_def save_books_def split_def Let_def read_all_def pack_book_None)
qed

lemma whole_save_books: "whole_blocks (book_file (snd (save_books fs xs))) BOOK_SIZE"
  using written_whole[of pack_book BOOK_SIZE xs, OF length_pack_book]
  by (simp add: save_books_def split_def Let_def)

lemma others_save_books:
  "member_file (snd (save_books fs xs)) = member_file fs" "loan_file (snd (save_books fs xs)) = loan_file fs"
  by (simp_all add: save_books_def split_def Let_def)

lemma fst_append_book: "fst (append_book_record fs x) \<longleftrightarrow> book_packable x"
  by (simp add: append_book_record_def split_def Let_def fst_append_record pack_book_None)

lemma load_append_book:
  assumes "whole_blocks (book_file fs) BOOK_SIZE"
  shows "load_books (snd (append_book_record fs x))
         = load_books fs @ (if book_packable x then [norm_book x] else [])"
proof (cases "pack_book x")
  case None
  then show ?thesis using read_not_appended[of pack_book x "book_file fs" BOOK_SIZE]
    by (simp add: load_books_def append_book_record_def split_def Let_def read_all_def pack_book_None)
next
  case (Some blk)
  have sz: "0 < BOOK_SIZE" by (simp add: BOOK_SIZE_def)
  have p: "book_packable x" using Some pack_book_None[of x] by simp
  have "read_chunks (snd (append_record pack_book (book_file fs) x)) BOOK_SIZE = read_all (book_file fs) BOOK_SIZE @ [blk]"
    by (rule read_appended[where pack = pack_book and x = x, OF assms sz Some length_pack_book[OF Some]])
  then show ?thesis using p unpack_pack_book[OF Some]
    by (simp add: load_books_def append_book_record_def split_def Let_def read_all_def)
qed

lemma whole_append_book:
  "whole_blocks (book_file fs) BOOK_SIZE \<Longrightarrow> whole_blocks (book_file (snd (append_book_record fs x))) BOOK_SIZE"
  using appended_whole[of "book_file fs" BOOK_SIZE pack_book x, OF _ length_pack_book]
  by (simp add: append_book_record_def split_def Let_def)

lemma others_append_book:
  "member_file (snd (append_book_record fs x)) = member_file fs"
  "loan_file (snd (append_book_record fs x)) = loan_file fs"
  by (simp_all add: append_book_record_def split_def Let_def)

lemma load_books_valid: "x \<in> set (load_books fs) \<Longrightarrow> book_valid x"
  by (auto simp: load_books_def book_valid_unpack)

lemma load_books_all_valid: "list_all book_valid (load_books fs)"
  by (simp add: list_all_iff load_books_valid)

lemma fst_save_members: "fst (save_members fs xs) \<longleftrightarrow> list_all member_packable xs"
  by (simp add: save_members_def split_def Let_def fst_write_all pack_member_None)

lemma load_save_members: "load_members (snd (save_members fs xs)) = map norm_member (takeWhile member_packable xs)"
proof -
  have sz: "0 < MEMBER_SIZE" by (simp add: MEMBER_SIZE_def)
  have "map unpack_member (read_chunks (snd (write_all pack_member xs [])) MEMBER_SIZE)
        = map (\<lambda>x. unpack_member (the (pack_member x))) (takeWhile (\<lambda>x. pack_member x \<noteq> None) xs)"
    by (rule read_written[OF length_pack_member sz])
  also have "\<dots> = map norm_member (takeWhile (\<lambda>x. pack_member x \<noteq> None) xs)"
    by (rule map_cong[OF refl]) (auto dest!: set_takeWhileD simp: unpack_pack_member)
  finally show ?thesis
    by (simp add: load_members_def save_members_def split_def Let_def read_all_def pack_member_None)
qed

lemma whole_save_members: "whole_blocks (member_file (snd (save_members fs xs))) MEMBER_SIZE"
  using written_whole[of pack_member MEMBER_SIZE xs, OF length_pack_member]
  by (simp add: save_members_def split_def Let_def)

lemma others_save_members:
  "book_file (snd (save_members fs xs)) = book_file fs" "loan_file (snd (save_members fs xs)) = loan_file fs"
  by (simp_all add: save_members_def split_def Let_def)

lemma fst_append_member: "fst (append_member_record fs x) \<longleftrightarrow> member_packable x"
  by (simp add: append_member_record_def split_def Let_def fst_append_record pack_member_None)

lemma load_append_member:
  assumes "whole_blocks (member_file fs) MEMBER_SIZE"
  shows "load_members (snd (append_member_record fs x))
         = load_members fs @ (if member_packable x then [norm_member x] else [])"
proof (cases "pack_member x")
  case None
  then show ?thesis using read_not_appended[of pack_member x "member_file fs" MEMBER_SIZE]
    by (simp add: load_members_def append_member_record_def split_def Let_def read_all_def pack_member_None)
next
  case (Some blk)
  have sz: "0 < MEMBER_SIZE" by (simp add: MEMBER_SIZE_def)
  have p: "member_packable x" using Some pack_member_None[of x] by simp
  have "read_chunks (snd (append_record pack_member (member_file fs) x)) MEMBER_SIZE = read_all (member_file fs) MEMBER_SIZE @ [blk]"
    by (rule read_appended[where pack = pack_member and x = x, OF assms sz Some length_pack_member[OF Some]])
  then show ?thesis using p unpack_pack_member[OF Some]
    by (simp add: load_members_def append_member_record_def split_def Let_def read_all_def)
qed

lemma whole_append_member:
  "whole_blocks (member_file fs) MEMBER_SIZE \<Longrightarrow> whole_blocks (member_file (snd (append_member_record fs x))) MEMBER_SIZE"
  using appended_whole[of "member_file fs" MEMBER_SIZE pack_member x, OF _ length_pack_member]
  by (simp add: append_member_record_def split_def Let_def)

lemma others_append_member:
  "book_file (snd (append_member_record fs x)) = book_file fs"
  "loan_file (snd (append_member_record fs x)) = loan_file fs"
  by (simp_all add: append_member_record_def split_def Let_def)

lemma load_members_valid: "x \<in> set (load_members fs) \<Longrightarrow> member_valid x"
  by (auto simp: load_members_def member_valid_unpack)

lemma load_members_all_valid: "list_all member_valid (load_members fs)"
  by (simp add: list_all_iff load_members_valid)

lemma fst_save_loans: "fst (save_loans fs xs) \<longleftrightarrow> list_all loan_packable xs"
  by (simp add: save_loans_def split_def Let_def fst_write_all pack_loan_None)

lemma load_save_loans: "load_loans (snd (save_loans fs xs)) = map norm_loan (takeWhile loan_packable xs)"
proof -
  have sz: "0 < LOAN_SIZE" by (simp add: LOAN_SIZE_def)
  have "map unpack_loan (read_chunks (snd (write_all pack_loan xs [])) LOAN_SIZE)
        = map (\<lambda>x. unpack_loan (the (pack_loan x))) (takeWhile (\<lambda>x. pack_loan x \<noteq> None) xs)"
    by (rule read_written[OF length_pack_loan sz])
  also have "\<dots> = map norm_loan (takeWhile (\<lambda>x. pack_loan x \<noteq> None) xs)"
    by (rule map_cong[OF refl]) (auto dest!: set_takeWhileD simp: unpack_pack_loan)
  finally show ?thesis
    by (simp add: load_loans_def save_loans_def split_def Let_def read_all_def pack_loan_None)
qed

lemma whole_save_loans: "whole_blocks (loan_file (snd (save_loans fs xs))) LOAN_SIZE"
  using written_whole[of pack_loan LOAN_SIZE xs, OF length_pack_loan]
  by (simp add: save_loans_def split_def Let_def)

lemma others_save_loans:
  "book_file (snd (save_loans fs xs)) = book_file fs" "member_file (snd (save_loans fs xs)) = member_file fs"
  by (simp_all add: save_loans_def split_def Let_def)

lemma fst_append_loan: "fst (append_loan_record fs x) \<longleftrightarrow> loan_packable x"
  by (simp add: append_loan_record_def split_def Let_def fst_append_record pack_loan_None)

lemma load_append_loan:
  assumes "whole_blocks (loan_file fs) LOAN_SIZE"
  shows "load_loans (snd (append_loan_record fs x))
         = load_loans fs @ (if loan_packable x then [norm_loan x] else [])"
proof (cases "pack_loan x")
  case None
  then show ?thesis using read_not_appended[of pack_loan x "loan_file fs" LOAN_SIZE]
    by (simp add: load_loans_def append_loan_record_def split_def Let_def read_all_def pack_loan_None)
next
  case (Some blk)
  have sz: "0 < LOAN_SIZE" by (simp add: LOAN_SIZE_def)
  have p: "loan_packable x" using Some pack_loan_None[of x] by simp
  have "read_chunks (snd (append_record pack_loan (loan_file fs) x)) LOAN_SIZE = read_all (loan_file fs) LOAN_SIZE @ [blk]"
    by (rule read_appended[where pack = pack_loan and x = x, OF assms sz Some length_pack_loan[OF Some]])
  then show ?thesis using p unpack_pack_loan[OF Some]
    by (simp add: load_loans_def append_loan_record_def split_def Let_def read_all_def)
qed

lemma whole_append_loan:
  "whole_blocks (loan_file fs) LOAN_SIZE \<Longrightarrow> whole_blocks (loan_file (snd (append_loan_record fs x))) LOAN_SIZE"
  using appended_whole[of "loan_file fs" LOAN_SIZE pack_loan x, OF _ length_pack_loan]
  by (simp add: append_loan_record_def split_def Let_def)

lemma others_append_loan:
  "book_file (snd (append_loan_record fs x)) = book_file fs"
  "member_file (snd (append_loan_record fs x)) = member_file fs"
  by (simp_all add: append_loan_record_def split_def Let_def)

lemma load_loans_valid: "x \<in> set (load_loans fs) \<Longrightarrow> loan_valid x"
  by (auto simp: load_loans_def loan_valid_unpack)

lemma load_loans_all_valid: "list_all loan_valid (load_loans fs)"
  by (simp add: list_all_iff load_loans_valid)

lemma load_others_save_books:
  "load_members (snd (save_books fs xs)) = load_members fs"
  "load_loans (snd (save_books fs xs)) = load_loans fs"
  by (simp_all add: load_members_def load_loans_def others_save_books)

lemma load_others_save_members:
  "load_books (snd (save_members fs xs)) = load_books fs"
  "load_loans (snd (save_members fs xs)) = load_loans fs"
  by (simp_all add: load_books_def load_loans_def others_save_members)

lemma load_others_save_loans:
  "load_books (snd (save_loans fs xs)) = load_books fs"
  "load_members (snd (save_loans fs xs)) = load_members fs"
  by (simp_all add: load_books_def load_members_def others_save_loans)

lemma load_others_append_book:
  "load_members (snd (append_book_record fs x)) = load_members fs"
  "load_loans (snd (append_book_record fs x)) = load_loans fs"
  by (simp_all add: load_members_def load_loans_def others_append_book)

lemma load_others_append_member:
  "load_books (snd (append_member_record fs x)) = load_books fs"
  "load_loans (snd (append_member_record fs x)) = load_loans fs"
  by (simp_all add: load_books_def load_loans_def others_append_member)

lemma load_others_append_loan:
  "load_books (snd (append_loan_record fs x)) = load_books fs"
  "load_members (snd (append_loan_record fs x)) = load_members fs"
  by (simp_all add: load_books_def load_members_def others_append_loan)

subsection \<open>The identifier allocator\<close>

lemma max_from_ge: "m \<le> max_from m xs \<and> (\<forall>x\<in>set xs. x \<le> max_from m xs)"
proof (induction xs arbitrary: m)
  case Nil
  then show ?case by simp
next
  case (Cons x xs)
  from Cons.IH[of "if m < x then x else m"] show ?case by (auto split: if_splits)
qed

lemma max_from_in: "max_from m xs \<in> insert m (set xs)"
proof (induction xs arbitrary: m)
  case Nil
  then show ?case by simp
next
  case (Cons x xs)
  from Cons.IH[of "if m < x then x else m"] show ?case by (auto split: if_splits)
qed

lemma max_from_Max: "max_from m xs = Max (insert m (set xs))"
proof (rule Max_eqI[symmetric])
  show "finite (insert m (set xs))" by simp
  show "\<And>y. y \<in> insert m (set xs) \<Longrightarrow> y \<le> max_from m xs" using max_from_ge[of m xs] by auto
  show "max_from m xs \<in> insert m (set xs)" by (rule max_from_in)
qed

text \<open>
  Claim C9. \<open>next_id\<close> returns 1 on an empty collection and the largest identifier
  plus one otherwise; over the identifiers 3, 7, 2 it returns 8; the identifier returned
  is strictly greater than every identifier in the collection.
\<close>

theorem next_id_spec:
  "next_id [] key = 1
   \<and> (items \<noteq> [] \<longrightarrow> next_id items key = Max (key ` set items) + 1)
   \<and> next_id [3, 7, 2] (\<lambda>i. i) = 8
   \<and> (\<forall>i \<in> set items. key i < next_id items key)"
proof -
  have a: "next_id [] key = 1" by (simp add: next_id_def)
  have b: "next_id items key = Max (key ` set items) + 1" if "items \<noteq> []"
  proof -
    from that obtain x xs where i: "items = x # xs" by (cases items) auto
    show ?thesis unfolding i by (simp add: next_id_def max_from_Max)
  qed
  have c: "next_id [3, 7, 2] (\<lambda>i. i) = 8" by (simp add: next_id_def)
  have d: "key i < next_id items key" if "i \<in> set items" for i
  proof -
    have ne: "items \<noteq> []" using that by auto
    have "key i \<le> Max (key ` set items)" using that by (intro Max_ge) auto
    then show ?thesis using b[OF ne] by simp
  qed
  show ?thesis using a b c d by blast
qed

theorem next_id_spec_witness:
  "next_id [\<lparr>borrow_id = 3, loan_book_id = 1, loan_member_id = 1, loan_date = [], due_date = [], return_date = [], loan_status = 0\<rparr>,
            \<lparr>borrow_id = 7, loan_book_id = 1, loan_member_id = 1, loan_date = [], due_date = [], return_date = [], loan_status = 1\<rparr>] borrow_id = 8"
  using next_id_spec[where key = borrow_id and items = "[\<lparr>borrow_id = 3, loan_book_id = 1, loan_member_id = 1, loan_date = [], due_date = [], return_date = [], loan_status = 0\<rparr>,
            \<lparr>borrow_id = 7, loan_book_id = 1, loan_member_id = 1, loan_date = [], due_date = [], return_date = [], loan_status = 1\<rparr>]"]
  by simp

subsection \<open>Loading a file with a truncated last block\<close>

text \<open>
  Claim C7. Reading a file that holds N whole blocks followed by a fragment shorter than
  a block returns exactly the N blocks in file order: the fragment is dropped and nothing
  is raised; the loaders decode those N blocks. Reading a file that does not exist
  returns the empty sequence.
\<close>

theorem read_all_truncated:
  "(0 < sz \<and> (\<forall>b\<in>set blocks. length b = sz) \<and> length frag < sz
      \<longrightarrow> read_all (Some (concat blocks @ frag)) sz = blocks)
   \<and> read_all None sz = []
   \<and> ((\<forall>b\<in>set blocks. length b = BOOK_SIZE) \<and> length frag < BOOK_SIZE
      \<longrightarrow> load_books (fs\<lparr>book_file := Some (concat blocks @ frag)\<rparr>) = map unpack_book blocks)
   \<and> ((\<forall>b\<in>set blocks. length b = MEMBER_SIZE) \<and> length frag < MEMBER_SIZE
      \<longrightarrow> load_members (fs\<lparr>member_file := Some (concat blocks @ frag)\<rparr>) = map unpack_member blocks)
   \<and> ((\<forall>b\<in>set blocks. length b = LOAN_SIZE) \<and> length frag < LOAN_SIZE
      \<longrightarrow> load_loans (fs\<lparr>loan_file := Some (concat blocks @ frag)\<rparr>) = map unpack_loan blocks)
   \<and> load_books (fs\<lparr>book_file := None\<rparr>) = []
   \<and> load_members (fs\<lparr>member_file := None\<rparr>) = []
   \<and> load_loans (fs\<lparr>loan_file := None\<rparr>) = []"
proof -
  have g: "read_all (Some (concat bs @ fr)) n = bs"
    if "0 < n" "\<forall>b\<in>set bs. length b = n" "length fr < n" for bs fr n
    using that by (simp add: read_all_def read_chunks_concat)
  have n: "read_all None n = []" for n by (simp add: read_all_def)
  have b: "0 < BOOK_SIZE" "0 < MEMBER_SIZE" "0 < LOAN_SIZE"
    by (simp_all add: BOOK_SIZE_def MEMBER_SIZE_def LOAN_SIZE_def)
  show ?thesis
    using g[of sz blocks frag] g[OF b(1), of blocks frag] g[OF b(2), of blocks frag]
      g[OF b(3), of blocks frag] n
    by (simp add: load_books_def load_members_def load_loans_def)
qed

theorem read_all_truncated_witness:
  "read_all (Some ''abcde'') 2 = [''ab'', ''cd'']"
  using read_all_truncated[of 2 "[''ab'', ''cd'']" "''e''"] by simp

subsection \<open>Saving and loading again\<close>

text \<open>
  Claim C6, as the code has it. For every sequence of valid records (numbers in the
  signed 32-bit range; every string an encodable text within the byte length of its
  field that does not end in U+0000), saving it and loading again returns exactly that
  sequence, in the same order.
\<close>

theorem save_load_roundtrip:
  "(list_all book_valid bs \<longrightarrow>
      fst (save_books fs bs) \<and> load_books (snd (save_books fs bs)) = bs)
   \<and> (list_all member_valid ms \<longrightarrow>
      fst (save_members fs ms) \<and> load_members (snd (save_members fs ms)) = ms)
   \<and> (list_all loan_valid ls \<longrightarrow>
      fst (save_loans fs ls) \<and> load_loans (snd (save_loans fs ls)) = ls)"
proof -
  have tw: "takeWhile P xs = xs" if "list_all P xs" for P and xs :: "'a list"
    using that by (induction xs) simp_all
  have b: "fst (save_books fs bs) \<and> load_books (snd (save_books fs bs)) = bs" if v: "list_all book_valid bs"
  proof -
    from v have p: "list_all book_packable bs" by (simp add: list_all_iff book_valid_def)
    have "map norm_book bs = bs" using v by (simp add: list_all_iff norm_book_valid map_idI)
    then show ?thesis using p by (simp add: fst_save_books load_save_books tw)
  qed
  have m: "fst (save_members fs ms) \<and> load_members (snd (save_members fs ms)) = ms" if v: "list_all member_valid ms"
  proof -
    from v have p: "list_all member_packable ms" by (simp add: list_all_iff member_valid_def)
    have "map norm_member ms = ms" using v by (simp add: list_all_iff norm_member_valid map_idI)
    then show ?thesis using p by (simp add: fst_save_members load_save_members tw)
  qed
  have l: "fst (save_loans fs ls) \<and> load_loans (snd (save_loans fs ls)) = ls" if v: "list_all loan_valid ls"
  proof -
    from v have p: "list_all loan_packable ls" by (simp add: list_all_iff loan_valid_def)
    have "map norm_loan ls = ls" using v by (simp add: list_all_iff norm_loan_valid map_idI)
    then show ?thesis using p by (simp add: fst_save_loans load_save_loans tw)
  qed
  from b m l show ?thesis by blast
qed

theorem save_load_roundtrip_witness:
  "list_all book_valid
     [\<lparr>book_id = 1, title = ''Dune'', author = ''Herbert'', year = 1965, copies = 2,
        borrowed = 0, book_status = 1\<rparr>]
   \<and> load_books (snd (save_books empty_files
        [\<lparr>book_id = 1, title = ''Dune'', author = ''Herbert'', year = 1965, copies = 2,
           borrowed = 0, book_status = 1\<rparr>]))
     = [\<lparr>book_id = 1, title = ''Dune'', author = ''Herbert'', year = 1965, copies = 2,
           borrowed = 0, book_status = 1\<rparr>]"
proof -
  have v: "list_all book_valid
     [\<lparr>book_id = 1, title = ''Dune'', author = ''Herbert'', year = 1965, copies = 2,
        borrowed = 0, book_status = 1\<rparr>]"
    by code_simp
  from v save_load_roundtrip[of
     "[\<lparr>book_id = 1, title = ''Dune'', author = ''Herbert'', year = 1965, copies = 2,
         borrowed = 0, book_status = 1\<rparr>]" empty_files "[]" "[]"]
  show ?thesis by blast
qed

text \<open>
  The claim as stated asks only for strings within their byte lengths and numbers in
  range. A title that is the single character U+0000 is within 50 bytes, yet it is read
  back as the empty string, because \<open>unpack_str\<close> strips trailing zero bytes.
\<close>

theorem save_load_roundtrip_counterexample:
  "length [NUL] \<le> 50
   \<and> book_packable \<lparr>book_id = 1, title = [NUL], author = [], year = 0, copies = 1,
                       borrowed = 0, book_status = 1\<rparr>
   \<and> load_books (snd (save_books empty_files
        [\<lparr>book_id = 1, title = [NUL], author = [], year = 0, copies = 1,
           borrowed = 0, book_status = 1\<rparr>]))
     \<noteq> [\<lparr>book_id = 1, title = [NUL], author = [], year = 0, copies = 1,
            borrowed = 0, book_status = 1\<rparr>]"
  by code_simp

end
